theory Spec2Isabelle
  imports Main
begin

section \<open>The AFNS engine extension (afns\_engine.cc)\<close>

subsection \<open>The two \<open>std::string\<close> members the engine calls\<close>

text \<open>
  A \<open>std::string\<close> is a \<^typ>\<open>string\<close>, one \<^typ>\<open>char\<close> per byte. Positions and
  lengths (\<open>size_t\<close>) are natural numbers: a string in memory is shorter than
  \<open>2^64 - 7\<close> bytes, so \<open>pos += 6\<close> cannot wrap.

  \<open>s.find(t, pos)\<close> is the lowest index \<open>i \<ge> pos\<close> with \<open>i + t.size() \<le> s.size()\<close> at
  which \<open>t\<close> occurs in \<open>s\<close>; \<open>std::string::npos\<close> is \<open>None\<close>.
\<close>

function string_find :: "string \<Rightarrow> string \<Rightarrow> nat \<Rightarrow> nat option" where
  "string_find s t pos =
     (if length s < pos + length t then None
      else if take (length t) (drop pos s) = t then Some pos
      else string_find s t (Suc pos))"
  by pat_completeness auto
termination
proof (relation "measure (\<lambda>(s, t, pos). length s - pos)")
  show "wf (measure (\<lambda>(s, t, pos). length s - pos))"
    by simp
next
  fix s t :: string and pos :: nat
  assume fits: "\<not> length s < pos + length t"
    and differs: "take (length t) (drop pos s) \<noteq> t"
  from differs have "t \<noteq> []"
    by auto
  with fits have "pos < length s"
    by (cases t) auto
  then show "((s, t, Suc pos), (s, t, pos)) \<in> measure (\<lambda>(s, t, pos). length s - pos)"
    by simp
qed

text \<open>
  \<open>s.replace(pos, len, t)\<close> throws \<open>std::out_of_range\<close> (here \<open>None\<close>) when
  \<open>pos > s.size()\<close>; otherwise the characters \<open>[pos, pos + min(len, size - pos))\<close> give
  way to \<open>t\<close>.
\<close>

definition string_replace :: "string \<Rightarrow> nat \<Rightarrow> nat \<Rightarrow> string \<Rightarrow> string option" where
  "string_replace s pos len t =
     (if length s < pos then None else Some (take pos s @ t @ drop (pos + len) s))"

lemma string_find_Some:
  "string_find s t pos = Some p \<Longrightarrow>
     pos \<le> p \<and> p + length t \<le> length s \<and> take (length t) (drop p s) = t
     \<and> (\<forall>i. pos \<le> i \<and> i < p \<longrightarrow> take (length t) (drop i s) \<noteq> t)"
proof (induction s t pos rule: string_find.induct)
  case (1 s t pos)
  show ?case
  proof (cases "length s < pos + length t")
    case True
    with "1.prems" show ?thesis
      by simp
  next
    case fits: False
    show ?thesis
    proof (cases "take (length t) (drop pos s) = t")
      case True
      with fits "1.prems" show ?thesis
        by auto
    next
      case False
      with fits "1.prems" have rec: "string_find s t (Suc pos) = Some p"
        by simp
      from "1.IH" [OF fits False rec]
      have ih: "Suc pos \<le> p" "p + length t \<le> length s" "take (length t) (drop p s) = t"
        "\<forall>i. Suc pos \<le> i \<and> i < p \<longrightarrow> take (length t) (drop i s) \<noteq> t"
        by simp_all
      have "take (length t) (drop i s) \<noteq> t" if "pos \<le> i" "i < p" for i
      proof (cases "i = pos")
        case True
        with False show ?thesis by simp
      next
        case False
        with that ih(4) show ?thesis by (simp add: Suc_le_eq)
      qed
      with ih show ?thesis
        by simp
    qed
  qed
qed

lemma string_find_None:
  "string_find s t pos = None \<Longrightarrow> pos \<le> i \<Longrightarrow> i + length t \<le> length s \<Longrightarrow>
     take (length t) (drop i s) \<noteq> t"
proof (induction s t pos rule: string_find.induct)
  case (1 s t pos)
  from "1.prems" have fits: "\<not> length s < pos + length t"
    by simp
  with "1.prems"(1) have here: "take (length t) (drop pos s) \<noteq> t"
    by (auto split: if_splits)
  with fits "1.prems"(1) have rec: "string_find s t (Suc pos) = None"
    by simp
  show ?case
  proof (cases "i = pos")
    case True
    with here show ?thesis by simp
  next
    case False
    with "1.prems"(2) have "Suc pos \<le> i" by simp
    from "1.IH" [OF fits here rec this "1.prems"(3)] show ?thesis .
  qed
qed

subsection \<open>\<open>ProcessAFNSCode\<close>\<close>

text \<open>
  The loop of \<open>ProcessAFNSCode\<close>
  \<^verbatim>\<open>
    size_t pos = 0;
    while ((pos = result.find("fun ", pos)) != std::string::npos) {
        result.replace(pos, 4, "Widget ");
        pos += 6;
    }
  \<close>
  over its two variables \<open>result\<close> and \<open>pos\<close>. The third argument is a ghost counter of
  the executions of the loop body, that is, of the replacements performed; the source
  keeps no such counter and the result string does not depend on it.
\<close>

function ProcessAFNSCode_loop :: "string \<Rightarrow> nat \<Rightarrow> nat \<Rightarrow> (string \<times> nat) option" where
  "ProcessAFNSCode_loop result pos n =
     (case string_find result ''fun '' pos of
        None \<Rightarrow> Some (result, n)
      | Some p \<Rightarrow>
          (case string_replace result p 4 ''Widget '' of
             None \<Rightarrow> None
           | Some result' \<Rightarrow> ProcessAFNSCode_loop result' (p + 6) (Suc n)))"
  by pat_completeness auto
termination
proof (relation "measure (\<lambda>(result, pos, n). length result - pos)")
  show "wf (measure (\<lambda>(result, pos, n). length result - pos))"
    by simp
next
  fix result result' :: string and pos n p :: nat
  assume found: "string_find result ''fun '' pos = Some p"
    and replaced: "string_replace result p 4 ''Widget '' = Some result'"
  from string_find_Some [OF found] have "pos \<le> p" "p + 4 \<le> length result"
    by simp_all
  moreover from replaced have "length result' = length result + 3"
    using \<open>p + 4 \<le> length result\<close>
    by (auto simp: string_replace_def split: if_splits)
  ultimately show "((result', p + 6, Suc n), (result, pos, n))
      \<in> measure (\<lambda>(result, pos, n). length result - pos)"
    by simp
qed

text \<open>
  \<open>ProcessAFNSCode\<close> copies \<open>code\<close> into \<open>result\<close>, runs the loop from position 0 and
  returns \<open>result\<close>. Its body mentions no data member of the engine. \<open>None\<close> stands for
  an exception leaving the function.
\<close>

definition ProcessAFNSCode :: "string \<Rightarrow> string option" where
  "ProcessAFNSCode code =
     (case ProcessAFNSCode_loop code 0 0 of
        None \<Rightarrow> None
      | Some (result, n) \<Rightarrow> Some result)"

text \<open>The number of times the loop body runs on \<open>code\<close>.\<close>

definition replacements :: "string \<Rightarrow> nat option" where
  "replacements code =
     (case ProcessAFNSCode_loop code 0 0 of
        None \<Rightarrow> None
      | Some (result, n) \<Rightarrow> Some n)"

subsection \<open>The engine object and its member functions\<close>

text \<open>
  The data members of \<open>class AFNSEngineExtension\<close> (\<open>internal_afns_state_\<close> and
  \<open>afns_compiler_handle_\<close>, written without the trailing underscore, which is no name
  here). A \<open>std::unique_ptr\<close> holds an address or is null (\<open>None\<close>).
\<close>

record AFNSEngineExtension =
  internal_afns_state :: string
  afns_compiler_handle :: "nat option"

text \<open>The constructor; \<open>afns_compiler_handle_\<close> is default-initialised to null.\<close>

definition AFNSEngineExtension_new :: AFNSEngineExtension where
  "AFNSEngineExtension_new =
     \<lparr>internal_afns_state = ''AFNS_ENGINE_ACTIVE'', afns_compiler_handle = None\<rparr>"

text \<open>\<open>return !code.empty() && code.length() > 0;\<close>\<close>

definition ValidateAFNSCode :: "string \<Rightarrow> bool" where
  "ValidateAFNSCode code = (code \<noteq> [] \<and> 0 < length code)"

text \<open>
  A member function takes the object (\<open>this\<close>) and returns its result together with the
  object as the call leaves it; \<open>None\<close> is an exception that leaves the function.
\<close>

definition CompileAFNSWidget ::
  "string \<Rightarrow> AFNSEngineExtension \<Rightarrow> (string \<times> AFNSEngineExtension) option" where
  "CompileAFNSWidget afns_code this =
     (if \<not> ValidateAFNSCode afns_code then Some (''error: invalid_afns_code'', this)
      else case ProcessAFNSCode afns_code of
             None \<Rightarrow> None
           | Some processed_code \<Rightarrow>
               Some (''Flutter Widget Generated from AFNS: '' @ processed_code, this))"

definition ExecuteAFNSLogic ::
  "string \<Rightarrow> AFNSEngineExtension \<Rightarrow> (string \<times> AFNSEngineExtension) option" where
  "ExecuteAFNSLogic afns_code this =
     (if \<not> ValidateAFNSCode afns_code then Some (''error: invalid_afns_logic'', this)
      else case ProcessAFNSCode afns_code of
             None \<Rightarrow> None
           | Some processed_code \<Rightarrow>
               Some (processed_code,
                     this\<lparr>internal_afns_state := ''EXECUTED: '' @ processed_code\<rparr>))"

definition UpdateAFNSSState :: "string \<Rightarrow> AFNSEngineExtension \<Rightarrow> AFNSEngineExtension" where
  "UpdateAFNSSState state this = this\<lparr>internal_afns_state := state\<rparr>"

definition GetAFNSSState :: "AFNSEngineExtension \<Rightarrow> string \<times> AFNSEngineExtension" where
  "GetAFNSSState this = (internal_afns_state this, this)"

subsection \<open>The entry points of the library\<close>

text \<open>
  The one global of the file, \<open>std::unique_ptr<AFNSEngineExtension> g_afns_engine\<close>, and
  its lazy accessor. The accessor returns a pointer to the global object; the model
  returns the object pointed to.
\<close>

record globals =
  g_afns_engine :: "AFNSEngineExtension option"

definition GetAFNSEngine :: "globals \<Rightarrow> AFNSEngineExtension \<times> globals" where
  "GetAFNSEngine g =
     (case g_afns_engine g of
        None \<Rightarrow> (AFNSEngineExtension_new, g\<lparr>g_afns_engine := Some AFNSEngineExtension_new\<rparr>)
      | Some e \<Rightarrow> (e, g))"

text \<open>
  The two JNI functions. The argument is the byte sequence that \<open>GetStringUTFChars\<close>
  hands over for the Java string (NUL-terminated, so without a NUL inside), the result
  the byte sequence given to \<open>NewStringUTF\<close>. \<open>afns_engine\<close> is a local object,
  constructed on entry and destroyed on return.
\<close>

definition nativeCompileAFNSWidget :: "string \<Rightarrow> globals \<Rightarrow> (string \<times> globals) option" where
  "nativeCompileAFNSWidget afns_code g =
     (let afns_engine = AFNSEngineExtension_new in
      case CompileAFNSWidget afns_code afns_engine of
        None \<Rightarrow> None
      | Some (result, afns_engine') \<Rightarrow> Some (result, g))"

definition nativeExecuteAFNSLogic :: "string \<Rightarrow> globals \<Rightarrow> (string \<times> globals) option" where
  "nativeExecuteAFNSLogic afns_code g =
     (let afns_engine = AFNSEngineExtension_new in
      case ExecuteAFNSLogic afns_code afns_engine of
        None \<Rightarrow> None
      | Some (result, afns_engine') \<Rightarrow> Some (result, g))"

text \<open>
  The platform hooks, each compiled on its platform only. \<open>JNI_VERSION_1_6\<close> is
  \<open>0x00010006\<close> in \<open>jni.h\<close> and \<open>TRUE\<close> is 1 in the Windows headers; of the reasons
  \<open>DllMain\<close> is called with, the \<open>switch\<close> tells two from the rest.
\<close>

datatype fdwReason = DLL_PROCESS_ATTACH | DLL_PROCESS_DETACH | DLL_THREAD_REASON

definition JNI_OnLoad :: "globals \<Rightarrow> int \<times> globals" where
  "JNI_OnLoad g = (0x00010006, snd (GetAFNSEngine g))"

definition afns_linux_init :: "globals \<Rightarrow> int \<times> globals" where
  "afns_linux_init g = (0, snd (GetAFNSEngine g))"

definition DllMain :: "fdwReason \<Rightarrow> globals \<Rightarrow> int \<times> globals" where
  "DllMain reason g =
     (case reason of
        DLL_PROCESS_ATTACH \<Rightarrow> (1, snd (GetAFNSEngine g))
      | DLL_PROCESS_DETACH \<Rightarrow> (1, g\<lparr>g_afns_engine := None\<rparr>)
      | DLL_THREAD_REASON \<Rightarrow> (1, g))"

definition afns_macos_init :: "globals \<Rightarrow> int \<times> globals" where
  "afns_macos_init g = (0, snd (GetAFNSEngine g))"

text \<open>
  A call through the exported interface, what it returns, and a sequence of such calls
  on the globals of the process: the results in order, and the globals at the end.
\<close>

datatype abi_call =
    NativeCompile string
  | NativeExecute string
  | OnLoad
  | LinuxInit
  | DllMainCall fdwReason
  | MacosInit

datatype abi_result = Str string | Num int

definition abi_step :: "abi_call \<Rightarrow> globals \<Rightarrow> (abi_result \<times> globals) option" where
  "abi_step c g =
     (case c of
        NativeCompile code \<Rightarrow> map_option (\<lambda>(r, g'). (Str r, g')) (nativeCompileAFNSWidget code g)
      | NativeExecute code \<Rightarrow> map_option (\<lambda>(r, g'). (Str r, g')) (nativeExecuteAFNSLogic code g)
      | OnLoad \<Rightarrow> (case JNI_OnLoad g of (r, g') \<Rightarrow> Some (Num r, g'))
      | LinuxInit \<Rightarrow> (case afns_linux_init g of (r, g') \<Rightarrow> Some (Num r, g'))
      | DllMainCall reason \<Rightarrow> (case DllMain reason g of (r, g') \<Rightarrow> Some (Num r, g'))
      | MacosInit \<Rightarrow> (case afns_macos_init g of (r, g') \<Rightarrow> Some (Num r, g')))"

fun abi_run :: "abi_call list \<Rightarrow> globals \<Rightarrow> (abi_result list \<times> globals) option" where
  "abi_run [] g = Some ([], g)"
| "abi_run (c # cs) g =
     (case abi_step c g of
        None \<Rightarrow> None
      | Some (r, g') \<Rightarrow>
          (case abi_run cs g' of
             None \<Rightarrow> None
           | Some (rs, g'') \<Rightarrow> Some (r # rs, g'')))"

section \<open>The GTK demo (afns\_gui\_demo.c)\<close>

subsection \<open>The C library calls on the result buffer\<close>

text \<open>
  A \<open>char\<close> array is the list of its bytes. \<open>strcpy(dest, src)\<close> writes the bytes of the
  string \<open>src\<close> and a terminating NUL to the start of \<open>dest\<close> and leaves the bytes of
  \<open>dest\<close> behind them as they were; it is undefined (\<open>None\<close>) when \<open>dest\<close> is too short
  for them.
\<close>

definition strcpy :: "string \<Rightarrow> string \<Rightarrow> string option" where
  "strcpy dest src =
     (if length dest < length src + 1 then None
      else Some (src @ [CHR 0x00] @ drop (length src + 1) dest))"

text \<open>
  The string a \<open>char\<close> array holds: its bytes before the first NUL. Reading an array with
  no NUL in it runs over its end (\<open>None\<close>).
\<close>

definition c_string :: "string \<Rightarrow> string option" where
  "c_string buf =
     (if CHR 0x00 \<in> set buf then Some (takeWhile (\<lambda>c. c \<noteq> CHR 0x00) buf) else None)"

text \<open>
  The state of the demo: the global \<open>char afns_result_buffer[1024]\<close> and the text held by
  the \<open>GtkTextBuffer\<close> of the text view, which every callback receives as \<open>data\<close>.
  \<open>gtk_text_buffer_set_text(buffer, text, -1)\<close> replaces the text of \<open>buffer\<close> by the
  NUL-terminated string at \<open>text\<close>.
\<close>

record demo_state =
  afns_result_buffer :: string
  text_buffer :: string

definition gtk_text_buffer_set_text :: "string \<Rightarrow> demo_state \<Rightarrow> demo_state option" where
  "gtk_text_buffer_set_text text st =
     (case c_string text of
        None \<Rightarrow> None
      | Some t \<Rightarrow> Some (st\<lparr>text_buffer := t\<rparr>))"

subsection \<open>The string literals of the seven \<open>strcpy\<close> calls\<close>

text \<open>
  Byte for byte as in the source file, which is UTF-8: the escapes \<open>\n\<close> and \<open>\"\<close> are the
  bytes \<open>0x0A\<close> and \<open>0x22\<close>, and a character outside ASCII is its three or four bytes.
\<close>

definition afns_init_text :: string where
  "afns_init_text =
     [CHR 0xF0, CHR 0x9F, CHR 0x9A, CHR 0x80] @ '' AFNS Flutter Integration Initialized!'' @
     [CHR 0x0A] @ ''Platform: Cross-platform Native'' @ [CHR 0x0A] @
     ''Performance: Maximum Speed''"

definition afns_create_window_text :: string where
  "afns_create_window_text =
     ''FlutterWindow(id::string = '' @ [CHR 0x22] @ ''main'' @ [CHR 0x22] @
     '', title::string = '' @ [CHR 0x22] @ ''AFNS Professional Flutter Application'' @
     [CHR 0x22] @ '', width::i32 = 1024, height::i32 = 768)''"

definition afns_create_button_text :: string where
  "afns_create_button_text =
     ''FlutterButton(id::string = '' @ [CHR 0x22] @ ''btn_save'' @ [CHR 0x22] @
     '', text::string = '' @ [CHR 0x22] @ ''Save Project'' @ [CHR 0x22] @
     '', x::i32 = 50, y::i32 = 50)''"

definition afns_create_textfield_text :: string where
  "afns_create_textfield_text =
     ''FlutterTextField(id::string = '' @ [CHR 0x22] @ ''txt_project'' @ [CHR 0x22] @
     '', placeholder::string = '' @ [CHR 0x22] @ ''Project Name'' @ [CHR 0x22] @
     '', x::i32 = 50, y::i32 = 100, width::i32 = 200)''"

definition afns_show_dialog_text :: string where
  "afns_show_dialog_text =
     ''FlutterDialog(title::string = '' @ [CHR 0x22] @ ''Success'' @ [CHR 0x22] @
     '', message::string = '' @ [CHR 0x22] @ ''AFNS GUI Application is working!'' @ [CHR 0x22] @
     '', modal::bool = true)''"

definition afns_run_demo_text :: string where
  "afns_run_demo_text =
     [CHR 0xF0, CHR 0x9F, CHR 0x8E, CHR 0xA8] @ '' AFNS GUI Demo Running!'' @ [CHR 0x0A] @
     ''==========================='' @ [CHR 0x0A, CHR 0xE2, CHR 0x9C, CHR 0x85] @
     '' All Flutter components initialized'' @ [CHR 0x0A, CHR 0xE2, CHR 0x9C, CHR 0x85] @
     '' Cross-platform compatibility: 100%'' @ [CHR 0x0A, CHR 0xE2, CHR 0x9C, CHR 0x85] @
     '' Performance: Maximum speed'' @ [CHR 0x0A, CHR 0xE2, CHR 0x9C, CHR 0x85] @
     '' Professional GUI: Working!'' @
     [CHR 0x0A, CHR 0x0A, CHR 0xF0, CHR 0x9F, CHR 0x92, CHR 0x8E] @
     '' AFNS Language = Professional GUI Platform!''"

definition initial_text :: string where
  "initial_text =
     [CHR 0xF0, CHR 0x9F, CHR 0x8E, CHR 0xA8] @ '' AFNS GUI Application Ready!'' @
     [CHR 0x0A, CHR 0x0A] @ ''Click buttons above to test AFNS Flutter functions...'' @
     [CHR 0x0A, CHR 0x0A, CHR 0xE2, CHR 0x9C, CHR 0x85] @
     '' AFNS Compiler: Built successfully'' @ [CHR 0x0A, CHR 0xE2, CHR 0x9C, CHR 0x85] @
     '' Flutter Integration: Ready'' @ [CHR 0x0A, CHR 0xE2, CHR 0x9C, CHR 0x85] @
     '' Cross-platform: Linux/Windows/macOS/Android/iOS/Web'' @
     [CHR 0x0A, CHR 0xE2, CHR 0x9C, CHR 0x85] @ '' Professional GUI: Fully functional''"

subsection \<open>The callbacks and \<open>main\<close>\<close>

text \<open>
  Each callback is \<open>strcpy(afns_result_buffer, literal)\<close> followed by
  \<open>gtk_text_buffer_set_text(data, afns_result_buffer, -1)\<close>; the \<open>widget\<close> argument is
  not used.
\<close>

definition afns_init_callback :: "demo_state \<Rightarrow> demo_state option" where
  "afns_init_callback st =
     (case strcpy (afns_result_buffer st) afns_init_text of
        None \<Rightarrow> None
      | Some buf \<Rightarrow> gtk_text_buffer_set_text buf (st\<lparr>afns_result_buffer := buf\<rparr>))"

definition afns_create_window_callback :: "demo_state \<Rightarrow> demo_state option" where
  "afns_create_window_callback st =
     (case strcpy (afns_result_buffer st) afns_create_window_text of
        None \<Rightarrow> None
      | Some buf \<Rightarrow> gtk_text_buffer_set_text buf (st\<lparr>afns_result_buffer := buf\<rparr>))"

definition afns_create_button_callback :: "demo_state \<Rightarrow> demo_state option" where
  "afns_create_button_callback st =
     (case strcpy (afns_result_buffer st) afns_create_button_text of
        None \<Rightarrow> None
      | Some buf \<Rightarrow> gtk_text_buffer_set_text buf (st\<lparr>afns_result_buffer := buf\<rparr>))"

definition afns_create_textfield_callback :: "demo_state \<Rightarrow> demo_state option" where
  "afns_create_textfield_callback st =
     (case strcpy (afns_result_buffer st) afns_create_textfield_text of
        None \<Rightarrow> None
      | Some buf \<Rightarrow> gtk_text_buffer_set_text buf (st\<lparr>afns_result_buffer := buf\<rparr>))"

definition afns_show_dialog_callback :: "demo_state \<Rightarrow> demo_state option" where
  "afns_show_dialog_callback st =
     (case strcpy (afns_result_buffer st) afns_show_dialog_text of
        None \<Rightarrow> None
      | Some buf \<Rightarrow> gtk_text_buffer_set_text buf (st\<lparr>afns_result_buffer := buf\<rparr>))"

definition afns_run_demo_callback :: "demo_state \<Rightarrow> demo_state option" where
  "afns_run_demo_callback st =
     (case strcpy (afns_result_buffer st) afns_run_demo_text of
        None \<Rightarrow> None
      | Some buf \<Rightarrow> gtk_text_buffer_set_text buf (st\<lparr>afns_result_buffer := buf\<rparr>))"

text \<open>
  The six buttons of \<open>main\<close> and the callback that \<open>g_signal_connect\<close> ties to the
  \<open>"clicked"\<close> signal of each.
\<close>

datatype button = init_btn | window_btn | button_btn | textfield_btn | dialog_btn | demo_btn

fun clicked :: "button \<Rightarrow> demo_state \<Rightarrow> demo_state option" where
  "clicked init_btn st = afns_init_callback st"
| "clicked window_btn st = afns_create_window_callback st"
| "clicked button_btn st = afns_create_button_callback st"
| "clicked textfield_btn st = afns_create_textfield_callback st"
| "clicked dialog_btn st = afns_show_dialog_callback st"
| "clicked demo_btn st = afns_run_demo_callback st"

text \<open>The literal in the callback of each button.\<close>

fun button_text :: "button \<Rightarrow> string" where
  "button_text init_btn = afns_init_text"
| "button_text window_btn = afns_create_window_text"
| "button_text button_btn = afns_create_button_text"
| "button_text textfield_btn = afns_create_textfield_text"
| "button_text dialog_btn = afns_show_dialog_text"
| "button_text demo_btn = afns_run_demo_text"

text \<open>
  The part of \<open>main\<close> that sets the initial text. The global array starts as 1024 zero
  bytes and the text buffer of a new text view is empty.
\<close>

definition main_initial_text :: "demo_state option" where
  "main_initial_text =
     (let st = \<lparr>afns_result_buffer = replicate 1024 (CHR 0x00), text_buffer = []\<rparr> in
      case strcpy (afns_result_buffer st) initial_text of
        None \<Rightarrow> None
      | Some buf \<Rightarrow> gtk_text_buffer_set_text buf (st\<lparr>afns_result_buffer := buf\<rparr>))"

text \<open>The literals of the seven \<open>strcpy\<close> calls, in the order of the source.\<close>

definition strcpy_literals :: "string list" where
  "strcpy_literals =
     [afns_init_text, afns_create_window_text, afns_create_button_text,
      afns_create_textfield_text, afns_show_dialog_text, afns_run_demo_text, initial_text]"

section \<open>The substitution, as the specification words it\<close>


text \<open>
  The token \<open>"fun "\<close> occurs in \<open>s\<close> at index \<open>i\<close>; the number of its occurrences in \<open>s\<close>.
\<close>

definition occurs_at :: "string \<Rightarrow> nat \<Rightarrow> bool" where
  "occurs_at s i = (take 4 (drop i s) = ''fun '')"

definition occurrences :: "string \<Rightarrow> nat" where
  "occurrences s = length (filter (occurs_at s) [0..<length s])"

text \<open>
  The substituted form of a string, in the words of the specification: reading from the
  left, each \<open>"fun "\<close> met gives \<open>"Widget "\<close> and reading goes on behind it; every other
  character is kept.
\<close>

fun substituted_form :: "string \<Rightarrow> string" where
  "substituted_form [] = []"
| "substituted_form (c # cs) =
     (if take 4 (c # cs) = ''fun '' then ''Widget '' @ substituted_form (drop 4 (c # cs))
      else c # substituted_form cs)"

section \<open>Properties of the engine\<close>

subsection \<open>Occurrences and the substituted form\<close>

lemma occurs_at_Cons_Suc: "occurs_at (c # cs) (Suc i) = occurs_at cs i"
  by (simp add: occurs_at_def)

lemma occurs_at_Nil: "\<not> occurs_at [] i"
  by (simp add: occurs_at_def)

lemma occurs_at_drop: "occurs_at (drop k s) i = occurs_at s (k + i)"
  by (simp add: occurs_at_def add.commute)

lemma occurs_at_0_decomp: "occurs_at s 0 \<Longrightarrow> s = ''fun '' @ drop 4 s"
proof -
  assume "occurs_at s 0"
  then have "take 4 s = ''fun ''"
    by (simp add: occurs_at_def)
  then have "take 4 s @ drop 4 s = ''fun '' @ drop 4 s"
    by (rule arg_cong)
  then show ?thesis
    by (simp only: append_take_drop_id)
qed

lemma occurs_at_length: "occurs_at s i \<Longrightarrow> i + 4 \<le> length s"
proof -
  assume "occurs_at s i"
  then have "length (take 4 (drop i s)) = 4"
    by (simp add: occurs_at_def)
  then show ?thesis
    by (simp split: if_splits add: min_def)
qed

lemma occurrences_Nil: "occurrences [] = 0"
  by (simp add: occurrences_def)

lemma occurrences_Cons:
  "occurrences (c # cs) = (if occurs_at (c # cs) 0 then 1 else 0) + occurrences cs"
  by (simp add: occurrences_def upt_conv_Cons filter_map comp_def occurs_at_Cons_Suc
      del: upt_Suc flip: map_Suc_upt)

lemma substituted_form_Cons:
  "substituted_form (c # cs) =
     (if occurs_at (c # cs) 0 then ''Widget '' @ substituted_form (drop 4 (c # cs))
      else c # substituted_form cs)"
  by (simp add: occurs_at_def)

text \<open>Up to the first occurrence nothing changes and nothing is counted.\<close>

lemma substituted_form_skip:
  "(\<forall>i<k. \<not> occurs_at s i) \<Longrightarrow> substituted_form s = take k s @ substituted_form (drop k s)"
proof (induction s arbitrary: k)
  case Nil
  then show ?case by simp
next
  case (Cons c cs)
  show ?case
  proof (cases k)
    case 0
    then show ?thesis by simp
  next
    case (Suc k')
    with Cons.prems have here: "\<not> occurs_at (c # cs) 0"
      and "\<forall>i<k'. \<not> occurs_at cs i"
      by (auto simp flip: occurs_at_Cons_Suc [of c cs])
    from Cons.IH [OF this(2)] here Suc show ?thesis
      by (simp only: substituted_form_Cons if_False take_Suc_Cons drop_Suc_Cons append_Cons)
  qed
qed

lemma occurrences_skip:
  "(\<forall>i<k. \<not> occurs_at s i) \<Longrightarrow> occurrences s = occurrences (drop k s)"
proof (induction s arbitrary: k)
  case Nil
  then show ?case by simp
next
  case (Cons c cs)
  show ?case
  proof (cases k)
    case 0
    then show ?thesis by simp
  next
    case (Suc k')
    with Cons.prems have here: "\<not> occurs_at (c # cs) 0"
      and "\<forall>i<k'. \<not> occurs_at cs i"
      by (auto simp flip: occurs_at_Cons_Suc [of c cs])
    from Cons.IH [OF this(2)] here Suc show ?thesis
      by (simp add: occurrences_Cons)
  qed
qed

text \<open>At an occurrence the token is exchanged, and the three positions inside it start none.\<close>

lemma substituted_form_hit:
  "occurs_at s 0 \<Longrightarrow> substituted_form s = ''Widget '' @ substituted_form (drop 4 s)"
  by (cases s) (simp_all only: substituted_form_Cons if_True occurs_at_Nil)

lemma occurrences_hit:
  assumes "occurs_at s 0"
  shows "occurrences s = Suc (occurrences (drop 4 s))"
proof -
  from occurs_at_0_decomp [OF assms] obtain r where s: "s = ''fun '' @ r" and r: "r = drop 4 s"
    by blast
  have "occurrences (''fun '' @ r) = Suc (occurrences r)"
    by (simp add: occurrences_Cons occurs_at_def)
  with s r show ?thesis
    by simp
qed

text \<open>Each replacement makes the string three characters longer, and nothing else does.\<close>

lemma length_substituted_form:
  "length (substituted_form s) = length s + 3 * occurrences s"
proof (induction s rule: substituted_form.induct)
  case 1
  show ?case
    by (simp add: occurrences_Nil)
next
  case (2 c cs)
  show ?case
  proof (cases "occurs_at (c # cs) 0")
    case True
    then have tk: "take 4 (c # cs) = ''fun ''"
      by (simp add: occurs_at_def)
    from occurs_at_length [OF True] have "4 \<le> length (c # cs)"
      by simp
    with "2.IH"(1) [OF tk] substituted_form_hit [OF True] occurrences_hit [OF True]
    show ?thesis
      by simp
  next
    case False
    then have tk: "take 4 (c # cs) \<noteq> ''fun ''"
      by (simp add: occurs_at_def)
    from False have "substituted_form (c # cs) = c # substituted_form cs"
      by (simp only: substituted_form_Cons if_False)
    with "2.IH"(2) [OF tk] False show ?thesis
      by (simp add: occurrences_Cons)
  qed
qed

lemma substituted_form_no_occurrence:
  assumes "\<forall>i. \<not> occurs_at s i"
  shows "substituted_form s = s"
  using substituted_form_skip [of "length s" s] assms by simp

lemma occurrences_no_occurrence:
  assumes "\<forall>i. \<not> occurs_at s i"
  shows "occurrences s = 0"
  using occurrences_skip [of "length s" s] assms by (simp add: occurrences_Nil)

subsection \<open>The loop computes the substituted form\<close>

lemma length_fun_token: "length ''fun '' = 4"
  by simp

lemma find_fun_Some:
  assumes "string_find s ''fun '' pos = Some p"
  shows "pos \<le> p" and "p + 4 \<le> length s" and "occurs_at s p"
    and "\<forall>i. pos \<le> i \<and> i < p \<longrightarrow> \<not> occurs_at s i"
  using string_find_Some [OF assms, unfolded length_fun_token]
  by (simp_all add: occurs_at_def)

lemma find_fun_None:
  assumes "string_find s ''fun '' pos = None" and "pos \<le> i"
  shows "\<not> occurs_at s i"
proof
  assume occ: "occurs_at s i"
  from string_find_None [OF assms, unfolded length_fun_token, OF occurs_at_length [OF occ]] occ
  show False
    by (simp only: occurs_at_def)
qed

text \<open>
  From any position, the loop leaves the characters before \<open>pos\<close> alone, returns the
  substituted form of the rest, and adds to the counter the occurrences in the rest. No
  call of \<open>replace\<close> throws.
\<close>

lemma ProcessAFNSCode_loop_eq:
  "ProcessAFNSCode_loop result pos n =
     Some (take pos result @ substituted_form (drop pos result),
           n + occurrences (drop pos result))"
proof (induction result pos n rule: ProcessAFNSCode_loop.induct)
  case (1 result pos n)
  show ?case
  proof (cases "string_find result ''fun '' pos")
    case None
    have "\<not> occurs_at (drop pos result) i" for i
      using find_fun_None [OF None, of "pos + i"] by (simp add: occurs_at_drop)
    then have "substituted_form (drop pos result) = drop pos result"
      "occurrences (drop pos result) = 0"
      by (simp_all add: substituted_form_no_occurrence occurrences_no_occurrence)
    with None show ?thesis
      by (simp add: ProcessAFNSCode_loop.simps [of result pos n])
  next
    case (Some p)
    note p = find_fun_Some(1,2) [OF Some] and at_p = find_fun_Some(3) [OF Some]
      and before = find_fun_Some(4) [OF Some]
    define result' where "result' = take p result @ ''Widget '' @ drop (p + 4) result"
    from p have rep: "string_replace result p 4 ''Widget '' = Some result'"
      by (simp add: string_replace_def result'_def)
    from p have tk: "take (p + 6) result' = take p result @ ''Widget''"
      and dr: "drop (p + 6) result' = CHR '' '' # drop (p + 4) result"
      by (simp_all add: result'_def)
    have sp: "substituted_form (CHR '' '' # t) = CHR '' '' # substituted_form t"
      "occurrences (CHR '' '' # t) = occurrences t" for t
      by (simp_all add: occurrences_Cons occurs_at_def)
    from "1.IH" [OF Some rep]
    have step: "ProcessAFNSCode_loop result' (p + 6) (Suc n) =
        Some (take p result @ ''Widget '' @ substituted_form (drop (p + 4) result),
              Suc n + occurrences (drop (p + 4) result))"
      by (simp only: tk dr sp) simp
    from before p have skip: "\<forall>i<p - pos. \<not> occurs_at (drop pos result) i"
      by (simp add: occurs_at_drop)
    from at_p have hit: "occurs_at (drop p result) 0"
      by (simp add: occurs_at_drop)
    from p have dd: "drop (p - pos) (drop pos result) = drop p result"
      "take pos result @ take (p - pos) (drop pos result) = take p result"
      "drop 4 (drop p result) = drop (p + 4) result"
      by (simp_all add: take_add [symmetric] add.commute)
    have "substituted_form (drop pos result) =
        take (p - pos) (drop pos result) @ ''Widget '' @ substituted_form (drop (p + 4) result)"
      using substituted_form_skip [OF skip] substituted_form_hit [OF hit] by (simp only: dd)
    moreover have "occurrences (drop pos result) = Suc (occurrences (drop (p + 4) result))"
      using occurrences_skip [OF skip] occurrences_hit [OF hit] by (simp only: dd)
    ultimately show ?thesis
      using Some rep step dd(2)
      by (simp add: ProcessAFNSCode_loop.simps [of result pos n]
          del: append_assoc flip: append_assoc)
  qed
qed

lemma ProcessAFNSCode_loop_start:
  "ProcessAFNSCode_loop code 0 0 = Some (substituted_form code, occurrences code)"
  using ProcessAFNSCode_loop_eq [of code 0 0] by simp

lemma ProcessAFNSCode_eq: "ProcessAFNSCode code = Some (substituted_form code)"
  unfolding ProcessAFNSCode_def ProcessAFNSCode_loop_start by simp

lemma replacements_eq: "replacements code = Some (occurrences code)"
  unfolding replacements_def ProcessAFNSCode_loop_start by simp

lemma ValidateAFNSCode_iff: "ValidateAFNSCode code \<longleftrightarrow> code \<noteq> []"
  by (auto simp: ValidateAFNSCode_def)

lemma CompileAFNSWidget_eq:
  "CompileAFNSWidget code this =
     Some (if code = [] then ''error: invalid_afns_code''
           else ''Flutter Widget Generated from AFNS: '' @ substituted_form code, this)"
  by (simp add: CompileAFNSWidget_def ValidateAFNSCode_iff ProcessAFNSCode_eq)

lemma ExecuteAFNSLogic_eq:
  "ExecuteAFNSLogic code this =
     (if code = [] then Some (''error: invalid_afns_logic'', this)
      else Some (substituted_form code,
                 this\<lparr>internal_afns_state := ''EXECUTED: '' @ substituted_form code\<rparr>))"
  by (simp add: ExecuteAFNSLogic_def ValidateAFNSCode_iff ProcessAFNSCode_eq)

subsection \<open>What the substituted form keeps\<close>

lemma occurs_at_Cons:
  "occurs_at (x # t) i =
     (case i of 0 \<Rightarrow> x = CHR ''f'' \<and> take 3 t = ''un '' | Suc j \<Rightarrow> occurs_at t j)"
  by (cases i) (auto simp: occurs_at_def)

lemma occurs_at_Widget: "occurs_at (''Widget '' @ t) i \<longleftrightarrow> 7 \<le> i \<and> occurs_at t (i - 7)"
  by (simp add: occurs_at_Cons split: nat.splits)

lemma substituted_form_head:
  "substituted_form s = x # t \<Longrightarrow> x \<noteq> CHR ''W'' \<Longrightarrow> \<exists>s'. s = x # s' \<and> t = substituted_form s'"
proof (cases s)
  case Nil
  assume "substituted_form s = x # t"
  with Nil show ?thesis
    by simp
next
  case (Cons c cs)
  assume eq: "substituted_form s = x # t" and x: "x \<noteq> CHR ''W''"
  show ?thesis
  proof (cases "occurs_at (c # cs) 0")
    case True
    from substituted_form_hit [OF True] eq Cons x show ?thesis
      by simp
  next
    case False
    then have "substituted_form (c # cs) = c # substituted_form cs"
      by (simp only: substituted_form_Cons if_False)
    with eq Cons show ?thesis
      by simp
  qed
qed

lemma substituted_form_un:
  assumes "take 3 (substituted_form s) = ''un ''"
  shows "take 3 s = ''un ''"
proof -
  from assms have "take 3 (substituted_form s) @ drop 3 (substituted_form s)
      = ''un '' @ drop 3 (substituted_form s)"
    by (rule arg_cong)
  then have full: "substituted_form s = CHR ''u'' # CHR ''n'' # CHR '' '' # drop 3 (substituted_form s)"
    by (simp only: append_take_drop_id) simp
  from substituted_form_head [OF full] obtain s1
    where s: "s = CHR ''u'' # s1"
      and t1: "CHR ''n'' # CHR '' '' # drop 3 (substituted_form s) = substituted_form s1"
    by auto
  from substituted_form_head [OF t1 [symmetric]] obtain s2
    where s1: "s1 = CHR ''n'' # s2"
      and t2: "CHR '' '' # drop 3 (substituted_form s) = substituted_form s2"
    by auto
  from substituted_form_head [OF t2 [symmetric]] obtain s3
    where s2: "s2 = CHR '' '' # s3"
    by auto
  from s s1 s2 show ?thesis
    by simp
qed

lemma substituted_form_no_fun: "\<not> occurs_at (substituted_form s) i"
proof (induction s arbitrary: i rule: substituted_form.induct)
  case 1
  show ?case
    by (simp add: occurs_at_Nil)
next
  case (2 c cs)
  show ?case
  proof (cases "occurs_at (c # cs) 0")
    case True
    then have tk: "take 4 (c # cs) = ''fun ''"
      by (simp add: occurs_at_def)
    from True have "substituted_form (c # cs) = ''Widget '' @ substituted_form (drop 4 (c # cs))"
      by (rule substituted_form_hit)
    with "2.IH"(1) [OF tk, of "i - 7"] show ?thesis
      by (simp only: occurs_at_Widget) simp
  next
    case False
    then have tk: "take 4 (c # cs) \<noteq> ''fun ''"
      by (simp add: occurs_at_def)
    from False have eq: "substituted_form (c # cs) = c # substituted_form cs"
      by (simp only: substituted_form_Cons if_False)
    show ?thesis
    proof (cases i)
      case 0
      show ?thesis
      proof
        assume "occurs_at (substituted_form (c # cs)) i"
        with 0 eq have "c = CHR ''f''" "take 3 (substituted_form cs) = ''un ''"
          by (simp_all add: occurs_at_Cons)
        from this(1) substituted_form_un [OF this(2)] have "occurs_at (c # cs) 0"
          by (simp add: occurs_at_Cons)
        with False show False ..
      qed
    next
      case (Suc j)
      with "2.IH"(2) [OF tk, of j] eq show ?thesis
        by (simp add: occurs_at_Cons)
    qed
  qed
qed

lemma occurrences_0_D:
  assumes "occurrences s = 0"
  shows "\<not> occurs_at s i"
proof
  assume occ: "occurs_at s i"
  from occurs_at_length [OF occ] have "i \<in> set [0..<length s]"
    by simp
  with occ have "i \<in> set (filter (occurs_at s) [0..<length s])"
    by simp
  with assms show False
    by (simp add: occurrences_def)
qed

lemma substituted_form_without_W:
  "CHR ''W'' \<notin> set (substituted_form s) \<Longrightarrow> substituted_form s = s"
proof (induction s rule: substituted_form.induct)
  case 1
  show ?case by simp
next
  case (2 c cs)
  show ?case
  proof (cases "occurs_at (c # cs) 0")
    case True
    from substituted_form_hit [OF True] "2.prems" show ?thesis
      by simp
  next
    case False
    then have tk: "take 4 (c # cs) \<noteq> ''fun ''"
      by (simp add: occurs_at_def)
    from False have eq: "substituted_form (c # cs) = c # substituted_form cs"
      by (simp only: substituted_form_Cons if_False)
    with "2.prems" have "CHR ''W'' \<notin> set (substituted_form cs)"
      by simp
    from "2.IH"(2) [OF tk this] eq show ?thesis
      by simp
  qed
qed

subsection \<open>The exported functions\<close>

lemma nativeCompileAFNSWidget_eq:
  "nativeCompileAFNSWidget code g =
     Some (if code = [] then ''error: invalid_afns_code''
           else ''Flutter Widget Generated from AFNS: '' @ substituted_form code, g)"
  by (simp add: nativeCompileAFNSWidget_def CompileAFNSWidget_eq)

lemma nativeExecuteAFNSLogic_eq:
  "nativeExecuteAFNSLogic code g =
     Some (if code = [] then ''error: invalid_afns_logic'' else substituted_form code, g)"
  by (simp add: nativeExecuteAFNSLogic_def ExecuteAFNSLogic_eq)

lemma abi_step_result: "\<exists>r. \<forall>g. map_option fst (abi_step c g) = Some r"
proof (cases c)
  case (NativeCompile code)
  then show ?thesis
    by (simp add: abi_step_def nativeCompileAFNSWidget_eq)
next
  case (NativeExecute code)
  then show ?thesis
    by (simp add: abi_step_def nativeExecuteAFNSLogic_eq)
next
  case OnLoad
  then show ?thesis
    by (simp add: abi_step_def JNI_OnLoad_def)
next
  case LinuxInit
  then show ?thesis
    by (simp add: abi_step_def afns_linux_init_def)
next
  case (DllMainCall reason)
  then show ?thesis
    by (cases reason) (simp_all add: abi_step_def DllMain_def)
next
  case MacosInit
  then show ?thesis
    by (simp add: abi_step_def afns_macos_init_def)
qed

lemma abi_run_results: "\<exists>rs. \<forall>g. map_option fst (abi_run cs g) = Some rs"
proof (induction cs)
  case Nil
  show ?case by simp
next
  case (Cons c cs)
  from abi_step_result [of c] obtain r where r: "\<And>g. map_option fst (abi_step c g) = Some r"
    by blast
  from Cons.IH obtain rs where rs: "\<And>g. map_option fst (abi_run cs g) = Some rs"
    by blast
  have "map_option fst (abi_run (c # cs) g) = Some (r # rs)" for g
  proof -
    from r [of g] obtain g' where step: "abi_step c g = Some (r, g')"
      by auto
    from rs [of g'] obtain g'' where run: "abi_run cs g' = Some (rs, g'')"
      by auto
    from step run show ?thesis
      by simp
  qed
  then show ?case
    by blast
qed

subsection \<open>The claims on the substitution\<close>

text \<open>
  C1. \<open>ProcessAFNSCode\<close> returns, without throwing, the input with each occurrence of
  \<open>"fun "\<close> replaced by \<open>"Widget "\<close>, from left to right, reading on behind each
  replacement, and with every other character kept; the loop body runs once for each
  occurrence of \<open>"fun "\<close> in the input, and the result is longer than the input by
  three characters for each. On a non-empty input \<open>CompileAFNSWidget\<close> returns
  that string behind its prefix and \<open>ExecuteAFNSLogic\<close> returns that string.
\<close>

theorem ProcessAFNSCode_replaces_each_occurrence:
  "ProcessAFNSCode code = Some (substituted_form code)
   \<and> replacements code = Some (occurrences code)
   \<and> length (substituted_form code) = length code + 3 * occurrences code
   \<and> (code \<noteq> [] \<longrightarrow>
        CompileAFNSWidget code this =
          Some (''Flutter Widget Generated from AFNS: '' @ substituted_form code, this)
        \<and> map_option fst (ExecuteAFNSLogic code this) = Some (substituted_form code))"
  by (simp add: ProcessAFNSCode_eq replacements_eq length_substituted_form
      CompileAFNSWidget_eq ExecuteAFNSLogic_eq)

theorem ProcessAFNSCode_replaces_each_occurrence_witness:
  "''fun fun xfun  funfun Fun fun'' \<noteq> []
   \<and> ProcessAFNSCode ''fun fun xfun  funfun Fun fun''
       = Some ''Widget Widget xWidget  funWidget Fun fun''
   \<and> replacements ''fun fun xfun  funfun Fun fun'' = Some 4
   \<and> CompileAFNSWidget ''fun fun xfun  funfun Fun fun'' AFNSEngineExtension_new
       = Some (''Flutter Widget Generated from AFNS: Widget Widget xWidget  funWidget Fun fun'',
               AFNSEngineExtension_new)
   \<and> map_option fst (ExecuteAFNSLogic ''fun fun xfun  funfun Fun fun'' AFNSEngineExtension_new)
       = Some ''Widget Widget xWidget  funWidget Fun fun''"
proof -
  have form: "substituted_form ''fun fun xfun  funfun Fun fun''
      = ''Widget Widget xWidget  funWidget Fun fun''"
    by simp
  have count: "occurrences ''fun fun xfun  funfun Fun fun'' = 4"
    by (simp add: occurrences_Cons occurrences_Nil occurs_at_def)
  from ProcessAFNSCode_replaces_each_occurrence
    [of "''fun fun xfun  funfun Fun fun''" AFNSEngineExtension_new]
  show ?thesis
    unfolding form count by simp
qed

text \<open>
  C2. On the empty string \<open>CompileAFNSWidget\<close> returns its error sentinel
  \<open>"error: invalid_afns_code"\<close> and \<open>ExecuteAFNSLogic\<close> returns its error sentinel
  \<open>"error: invalid_afns_logic"\<close>; either call leaves the engine object, and so
  \<open>internal_afns_state_\<close> as \<open>GetAFNSSState\<close> reads it, as it was.
\<close>

theorem empty_input_gives_sentinel_and_keeps_state:
  "CompileAFNSWidget [] this = Some (''error: invalid_afns_code'', this)
   \<and> ExecuteAFNSLogic [] this = Some (''error: invalid_afns_logic'', this)
   \<and> map_option (\<lambda>(r, this'). GetAFNSSState this') (ExecuteAFNSLogic [] this)
       = Some (GetAFNSSState this)
   \<and> map_option (\<lambda>(r, this'). GetAFNSSState this') (CompileAFNSWidget [] this)
       = Some (GetAFNSSState this)"
  by (simp add: CompileAFNSWidget_def ExecuteAFNSLogic_def ValidateAFNSCode_def)

theorem empty_input_gives_sentinel_and_keeps_state_witness:
  "CompileAFNSWidget [] AFNSEngineExtension_new
     = Some (''error: invalid_afns_code'', AFNSEngineExtension_new)
   \<and> ExecuteAFNSLogic [] AFNSEngineExtension_new
     = Some (''error: invalid_afns_logic'', AFNSEngineExtension_new)
   \<and> map_option (\<lambda>(r, this'). fst (GetAFNSSState this'))
         (ExecuteAFNSLogic [] AFNSEngineExtension_new) = Some ''AFNS_ENGINE_ACTIVE''
   \<and> map_option (\<lambda>(r, this'). fst (GetAFNSSState this'))
         (CompileAFNSWidget [] AFNSEngineExtension_new) = Some ''AFNS_ENGINE_ACTIVE''"
  using empty_input_gives_sentinel_and_keeps_state [of AFNSEngineExtension_new]
  by (simp add: GetAFNSSState_def AFNSEngineExtension_new_def)

text \<open>
  C3. \<open>ExecuteAFNSLogic\<close> on a non-empty input \<open>X\<close> returns the substituted form of
  \<open>X\<close> (what \<open>ProcessAFNSCode\<close> returns for \<open>X\<close>), and \<open>GetAFNSSState\<close> on the engine
  the call leaves behind returns \<open>"EXECUTED: "\<close> followed by that substituted form. For
  \<open>"fun main"\<close> the call returns \<open>"Widget main"\<close> and the state read is
  \<open>"EXECUTED: Widget main"\<close>.
\<close>

theorem execute_then_get_state:
  "(X \<noteq> [] \<longrightarrow>
      map_option (\<lambda>(r, this'). (r, fst (GetAFNSSState this'))) (ExecuteAFNSLogic X this)
        = Some (substituted_form X, ''EXECUTED: '' @ substituted_form X)
      \<and> ProcessAFNSCode X = Some (substituted_form X))
   \<and> map_option (\<lambda>(r, this'). (r, fst (GetAFNSSState this')))
        (ExecuteAFNSLogic ''fun main'' this)
        = Some (''Widget main'', ''EXECUTED: Widget main'')"
  by (simp add: ExecuteAFNSLogic_eq GetAFNSSState_def ProcessAFNSCode_eq)

theorem execute_then_get_state_witness:
  "''let fun f fun g'' \<noteq> []
   \<and> map_option (\<lambda>(r, this'). (r, fst (GetAFNSSState this')))
        (ExecuteAFNSLogic ''let fun f fun g'' (UpdateAFNSSState ''old'' AFNSEngineExtension_new))
        = Some (''let Widget f Widget g'', ''EXECUTED: let Widget f Widget g'')
   \<and> map_option (\<lambda>(r, this'). (r, fst (GetAFNSSState this')))
        (ExecuteAFNSLogic ''fun main'' (UpdateAFNSSState ''old'' AFNSEngineExtension_new))
        = Some (''Widget main'', ''EXECUTED: Widget main'')"
  using execute_then_get_state
    [of "''let fun f fun g''" "UpdateAFNSSState ''old'' AFNSEngineExtension_new"]
  by simp

text \<open>
  C4, as stated, fails for \<open>ExecuteAFNSLogic\<close>: an error is signalled by the returned string
  alone, and the non-empty input \<open>"error: invalid_afns_logic"\<close> passes validation, holds no
  \<open>"fun "\<close> and is returned as it is. The call returns the error sentinel on an input that
  is not empty.
\<close>

theorem execute_echoes_its_sentinel:
  "''error: invalid_afns_logic'' \<noteq> []
   \<and> ValidateAFNSCode ''error: invalid_afns_logic''
   \<and> ExecuteAFNSLogic ''error: invalid_afns_logic'' AFNSEngineExtension_new
       = Some (''error: invalid_afns_logic'',
               AFNSEngineExtension_new
                 \<lparr>internal_afns_state := ''EXECUTED: error: invalid_afns_logic''\<rparr>)
   \<and> \<not> (map_option fst
            (ExecuteAFNSLogic ''error: invalid_afns_logic'' AFNSEngineExtension_new)
            = Some ''error: invalid_afns_logic''
          \<longleftrightarrow> ''error: invalid_afns_logic'' = [])"
  by (simp add: ExecuteAFNSLogic_eq ValidateAFNSCode_iff)

text \<open>
  C4, amended. \<open>ValidateAFNSCode\<close> accepts exactly the non-empty strings.
  \<open>CompileAFNSWidget\<close> returns its error sentinel if and only if the input is empty.
  \<open>ExecuteAFNSLogic\<close> returns its error sentinel if and only if the input is empty or is
  the sentinel string \<open>"error: invalid_afns_logic"\<close> itself.
\<close>

theorem error_results_characterised:
  "(ValidateAFNSCode code \<longleftrightarrow> code \<noteq> [])
   \<and> (map_option fst (CompileAFNSWidget code this) = Some ''error: invalid_afns_code''
        \<longleftrightarrow> code = [])
   \<and> (map_option fst (ExecuteAFNSLogic code this) = Some ''error: invalid_afns_logic''
        \<longleftrightarrow> code = [] \<or> code = ''error: invalid_afns_logic'')"
proof -
  have "substituted_form code = ''error: invalid_afns_logic''
      \<longleftrightarrow> code = ''error: invalid_afns_logic''"
  proof
    assume eq: "substituted_form code = ''error: invalid_afns_logic''"
    then have "CHR ''W'' \<notin> set (substituted_form code)"
      by simp
    from substituted_form_without_W [OF this] eq show "code = ''error: invalid_afns_logic''"
      by simp
  next
    assume "code = ''error: invalid_afns_logic''"
    then show "substituted_form code = ''error: invalid_afns_logic''"
      by simp
  qed
  then show ?thesis
    by (simp add: ValidateAFNSCode_iff CompileAFNSWidget_eq ExecuteAFNSLogic_eq)
qed

theorem error_results_characterised_witness:
  "ValidateAFNSCode ''x''
   \<and> map_option fst (CompileAFNSWidget ''error: invalid_afns_code'' AFNSEngineExtension_new)
       \<noteq> Some ''error: invalid_afns_code''
   \<and> map_option fst (ExecuteAFNSLogic ''x'' AFNSEngineExtension_new)
       \<noteq> Some ''error: invalid_afns_logic''
   \<and> \<not> ValidateAFNSCode []"
  using error_results_characterised [of "''x''" AFNSEngineExtension_new]
    error_results_characterised [of "''error: invalid_afns_code''" AFNSEngineExtension_new]
    error_results_characterised [of "[]" AFNSEngineExtension_new]
  by simp

text \<open>
  C5. On a non-empty input with no occurrence of \<open>"fun "\<close>, \<open>ExecuteAFNSLogic\<close> returns the
  input unchanged and \<open>CompileAFNSWidget\<close> returns the input behind the prefix
  \<open>"Flutter Widget Generated from AFNS: "\<close>.
\<close>

theorem input_without_fun_is_unchanged:
  "code \<noteq> [] \<Longrightarrow> occurrences code = 0 \<Longrightarrow>
     map_option fst (ExecuteAFNSLogic code this) = Some code
     \<and> map_option fst (CompileAFNSWidget code this)
         = Some (''Flutter Widget Generated from AFNS: '' @ code)"
proof -
  assume nonempty: "code \<noteq> []" and none: "occurrences code = 0"
  from none have "\<forall>i. \<not> occurs_at code i"
    by (simp add: occurrences_0_D)
  then have "substituted_form code = code"
    by (rule substituted_form_no_occurrence)
  with nonempty show ?thesis
    by (simp add: ExecuteAFNSLogic_eq CompileAFNSWidget_eq)
qed

theorem input_without_fun_is_unchanged_witness:
  "''function fun'' \<noteq> [] \<and> occurrences ''function fun'' = 0
   \<and> map_option fst (ExecuteAFNSLogic ''function fun'' AFNSEngineExtension_new)
       = Some ''function fun''
   \<and> map_option fst (CompileAFNSWidget ''function fun'' AFNSEngineExtension_new)
       = Some ''Flutter Widget Generated from AFNS: function fun''"
proof -
  have none: "occurrences ''function fun'' = 0"
    by (simp add: occurrences_Cons occurrences_Nil occurs_at_def)
  have nonempty: "''function fun'' \<noteq> []"
    by simp
  from input_without_fun_is_unchanged [OF nonempty none, of AFNSEngineExtension_new] none
  show ?thesis
    by simp
qed

text \<open>
  C6. For every string \<open>s\<close>, \<open>UpdateAFNSSState\<close> with \<open>s\<close> makes \<open>s\<close> the whole of
  \<open>internal_afns_state_\<close>, whatever it was before, and touches no other member;
  \<open>GetAFNSSState\<close> then returns exactly \<open>s\<close> and leaves the object as it is.
\<close>

theorem set_then_get_state:
  "GetAFNSSState (UpdateAFNSSState s this) = (s, UpdateAFNSSState s this)
   \<and> internal_afns_state (UpdateAFNSSState s this) = s
   \<and> afns_compiler_handle (UpdateAFNSSState s this) = afns_compiler_handle this
   \<and> UpdateAFNSSState s (UpdateAFNSSState s' this) = UpdateAFNSSState s this"
  by (simp add: GetAFNSSState_def UpdateAFNSSState_def)

theorem set_then_get_state_witness:
  "fst (GetAFNSSState (UpdateAFNSSState ''fun x'' AFNSEngineExtension_new)) = ''fun x''
   \<and> fst (GetAFNSSState (UpdateAFNSSState [] AFNSEngineExtension_new)) = []"
  using set_then_get_state [of "''fun x''" AFNSEngineExtension_new]
    set_then_get_state [of "[]" AFNSEngineExtension_new]
  by simp

text \<open>
  C9. For every input, \<open>ProcessAFNSCode\<close> returns a string in which \<open>"fun "\<close> occurs at no
  index: \<open>find\<close> from position 0 finds nothing in it, and \<open>ProcessAFNSCode\<close> on it returns
  it unchanged.
\<close>

theorem ProcessAFNSCode_output_has_no_fun:
  "\<exists>r. ProcessAFNSCode code = Some r \<and> (\<forall>i. \<not> occurs_at r i) \<and> occurrences r = 0
       \<and> string_find r ''fun '' 0 = None \<and> ProcessAFNSCode r = Some r"
proof -
  let ?r = "substituted_form code"
  have none: "\<forall>i. \<not> occurs_at ?r i"
    by (simp add: substituted_form_no_fun)
  have "string_find ?r ''fun '' 0 = None"
  proof (cases "string_find ?r ''fun '' 0")
    case None
    then show ?thesis .
  next
    case (Some p)
    from find_fun_Some(3) [OF Some] none show ?thesis
      by simp
  qed
  moreover from none have "substituted_form ?r = ?r"
    by (rule substituted_form_no_occurrence)
  moreover from none have "occurrences ?r = 0"
    by (rule occurrences_no_occurrence)
  ultimately show ?thesis
    using none by (simp add: ProcessAFNSCode_eq)
qed

theorem ProcessAFNSCode_output_has_no_fun_witness:
  "ProcessAFNSCode ''ffun fun fufun n fun '' = Some ''fWidget Widget fuWidget n Widget ''
   \<and> occurrences ''fWidget Widget fuWidget n Widget '' = 0
   \<and> string_find ''fWidget Widget fuWidget n Widget '' ''fun '' 0 = None"
proof -
  have form: "substituted_form ''ffun fun fufun n fun '' = ''fWidget Widget fuWidget n Widget ''"
    by simp
  from ProcessAFNSCode_output_has_no_fun [of "''ffun fun fufun n fun ''"]
  show ?thesis
    unfolding ProcessAFNSCode_eq form by simp
qed

subsection \<open>The claim on the entry points\<close>

text \<open>
  C8. Each of the two JNI functions returns a result that depends on its argument only
  and returns the globals as it found them, whatever \<open>g_afns_engine\<close> holds: two calls
  with equal arguments return equal results. The results of any sequence of calls
  through the exported interface are the same from any two states of the globals, and a
  call of \<open>nativeExecuteAFNSLogic\<close> in front of a sequence changes none of its results.
\<close>

theorem native_calls_ignore_the_globals:
  "(\<exists>r. nativeCompileAFNSWidget code g = Some (r, g)
        \<and> nativeCompileAFNSWidget code g' = Some (r, g'))
   \<and> (\<exists>r. nativeExecuteAFNSLogic code g = Some (r, g)
        \<and> nativeExecuteAFNSLogic code g' = Some (r, g'))
   \<and> (\<exists>rs. map_option fst (abi_run cs g) = Some rs \<and> map_option fst (abi_run cs g') = Some rs)
   \<and> (\<exists>r rs. map_option fst (abi_run (NativeExecute code # cs) g) = Some (r # rs)
        \<and> map_option fst (abi_run cs g) = Some rs)"
proof -
  from abi_run_results [of cs] obtain rs where rs: "\<And>g. map_option fst (abi_run cs g) = Some rs"
    by blast
  from rs [of g] obtain h where run: "abi_run cs g = Some (rs, h)"
    by auto
  have later: "\<exists>r rs. map_option fst (abi_run (NativeExecute code # cs) g) = Some (r # rs)
      \<and> map_option fst (abi_run cs g) = Some rs"
    using run by (simp add: abi_step_def nativeExecuteAFNSLogic_eq)
  have same: "\<exists>rs. map_option fst (abi_run cs g) = Some rs
      \<and> map_option fst (abi_run cs g') = Some rs"
    using rs [of g] rs [of g'] by blast
  have compile: "\<exists>r. nativeCompileAFNSWidget code g = Some (r, g)
      \<and> nativeCompileAFNSWidget code g' = Some (r, g')"
    by (simp add: nativeCompileAFNSWidget_eq)
  have execute: "\<exists>r. nativeExecuteAFNSLogic code g = Some (r, g)
      \<and> nativeExecuteAFNSLogic code g' = Some (r, g')"
    by (simp add: nativeExecuteAFNSLogic_eq)
  from compile execute same later show ?thesis
    by (intro conjI)
qed

theorem native_calls_ignore_the_globals_witness:
  "nativeExecuteAFNSLogic ''fun a''
     \<lparr>g_afns_engine = Some (UpdateAFNSSState ''EXECUTED: x'' AFNSEngineExtension_new)\<rparr>
     = Some (''Widget a'',
         \<lparr>g_afns_engine = Some (UpdateAFNSSState ''EXECUTED: x'' AFNSEngineExtension_new)\<rparr>)
   \<and> nativeExecuteAFNSLogic ''fun a'' \<lparr>g_afns_engine = None\<rparr>
     = Some (''Widget a'', \<lparr>g_afns_engine = None\<rparr>)
   \<and> map_option fst
       (abi_run [NativeExecute ''fun a'', OnLoad, NativeExecute ''fun a'', NativeCompile ''fun a'',
                 DllMainCall DLL_PROCESS_DETACH, NativeExecute []]
          \<lparr>g_afns_engine = None\<rparr>)
     = Some [Str ''Widget a'', Num 0x00010006, Str ''Widget a'',
             Str ''Flutter Widget Generated from AFNS: Widget a'', Num 1,
             Str ''error: invalid_afns_logic'']
   \<and> map_option fst
       (abi_run [OnLoad, NativeExecute ''fun a'', NativeCompile ''fun a'',
                 DllMainCall DLL_PROCESS_DETACH, NativeExecute []]
          \<lparr>g_afns_engine = Some (UpdateAFNSSState ''EXECUTED: x'' AFNSEngineExtension_new)\<rparr>)
     = Some [Num 0x00010006, Str ''Widget a'',
             Str ''Flutter Widget Generated from AFNS: Widget a'', Num 1,
             Str ''error: invalid_afns_logic'']"
  using native_calls_ignore_the_globals
    [of "''fun a''"
      "\<lparr>g_afns_engine = Some (UpdateAFNSSState ''EXECUTED: x'' AFNSEngineExtension_new)\<rparr>"
      "\<lparr>g_afns_engine = None\<rparr>"
      "[OnLoad, NativeExecute ''fun a'', NativeCompile ''fun a'',
        DllMainCall DLL_PROCESS_DETACH, NativeExecute []]"]
  by (simp add: abi_step_def nativeExecuteAFNSLogic_eq nativeCompileAFNSWidget_eq
      JNI_OnLoad_def DllMain_def GetAFNSEngine_def)

section \<open>Properties of the demo\<close>

lemma literal_lengths:
  "length afns_init_text = 101" "length afns_create_window_text = 129"
  "length afns_create_button_text = 95" "length afns_create_textfield_text = 127"
  "length afns_show_dialog_text = 114" "length afns_run_demo_text = 244"
  "length initial_text = 252"
  by (simp_all add: afns_init_text_def afns_create_window_text_def afns_create_button_text_def
      afns_create_textfield_text_def afns_show_dialog_text_def afns_run_demo_text_def
      initial_text_def)

lemma literal_no_NUL:
  "CHR 0x00 \<notin> set afns_init_text" "CHR 0x00 \<notin> set afns_create_window_text"
  "CHR 0x00 \<notin> set afns_create_button_text" "CHR 0x00 \<notin> set afns_create_textfield_text"
  "CHR 0x00 \<notin> set afns_show_dialog_text" "CHR 0x00 \<notin> set afns_run_demo_text"
  "CHR 0x00 \<notin> set initial_text"
  by (simp_all add: afns_init_text_def afns_create_window_text_def afns_create_button_text_def
      afns_create_textfield_text_def afns_show_dialog_text_def afns_run_demo_text_def
      initial_text_def)

lemma button_text_length: "length (button_text b) + 1 \<le> 1024"
  by (cases b) (simp_all add: literal_lengths)

lemma button_text_no_NUL: "CHR 0x00 \<notin> set (button_text b)"
  by (cases b) (simp_all only: button_text.simps literal_no_NUL not_False_eq_True)

lemma c_string_terminated:
  "CHR 0x00 \<notin> set lit \<Longrightarrow> c_string (lit @ [CHR 0x00] @ rest) = Some lit"
proof -
  assume "CHR 0x00 \<notin> set lit"
  then have "takeWhile (\<lambda>c. c \<noteq> CHR 0x00) (lit @ [CHR 0x00] @ rest) = lit"
    by (induction lit) auto
  then show ?thesis
    by (simp add: c_string_def)
qed

lemma strcpy_fits:
  "length lit + 1 \<le> length dest \<Longrightarrow>
     strcpy dest lit = Some (lit @ [CHR 0x00] @ drop (length lit + 1) dest)"
  by (simp add: strcpy_def)

lemma strcpy_then_set_text:
  assumes "length lit + 1 \<le> length (afns_result_buffer st)" and "CHR 0x00 \<notin> set lit"
  shows "(case strcpy (afns_result_buffer st) lit of
            None \<Rightarrow> None
          | Some buf \<Rightarrow> gtk_text_buffer_set_text buf (st\<lparr>afns_result_buffer := buf\<rparr>))
         = Some \<lparr>afns_result_buffer =
                   lit @ [CHR 0x00] @ drop (length lit + 1) (afns_result_buffer st),
                 text_buffer = lit\<rparr>"
  by (simp only: strcpy_fits [OF assms(1)] option.case gtk_text_buffer_set_text_def
      c_string_terminated [OF assms(2)]) simp

lemma clicked_eq:
  assumes "length (afns_result_buffer st) = 1024"
  shows "clicked b st =
     Some \<lparr>afns_result_buffer =
             button_text b @ [CHR 0x00]
               @ drop (length (button_text b) + 1) (afns_result_buffer st),
           text_buffer = button_text b\<rparr>"
proof -
  from assms button_text_length [of b]
  have fits: "length (button_text b) + 1 \<le> length (afns_result_buffer st)"
    by simp
  from strcpy_then_set_text [OF fits button_text_no_NUL] show ?thesis
    by (cases b)
      (simp_all only: clicked.simps button_text.simps afns_init_callback_def
        afns_create_window_callback_def afns_create_button_callback_def
        afns_create_textfield_callback_def afns_show_dialog_callback_def
        afns_run_demo_callback_def)
qed

text \<open>
  C7. Whatever the 1024 bytes of \<open>afns_result_buffer\<close> and the text of the text buffer
  were, a click on any of the six buttons leaves the text buffer holding exactly the
  literal of that button and \<open>afns_result_buffer\<close> holding that literal as its string
  (the bytes behind the terminating NUL stay as they were); a second click on the same
  button changes nothing.
\<close>

theorem click_overwrites_display:
  assumes "length (afns_result_buffer st) = 1024"
  shows "\<exists>st'. clicked b st = Some st'
           \<and> text_buffer st' = button_text b
           \<and> c_string (afns_result_buffer st') = Some (button_text b)
           \<and> length (afns_result_buffer st') = 1024
           \<and> clicked b st' = Some st'"
proof -
  let ?buf = "button_text b @ [CHR 0x00]
      @ drop (length (button_text b) + 1) (afns_result_buffer st)"
  let ?st' = "\<lparr>afns_result_buffer = ?buf, text_buffer = button_text b\<rparr>"
  from assms button_text_length [of b] have len: "length (afns_result_buffer ?st') = 1024"
    by simp
  have again: "drop (length (button_text b) + 1) ?buf
      = drop (length (button_text b) + 1) (afns_result_buffer st)"
    by simp
  have "clicked b ?st' = Some ?st'"
    by (simp only: clicked_eq [OF len] demo_state.simps again)
  moreover have "c_string ?buf = Some (button_text b)"
    by (rule c_string_terminated [OF button_text_no_NUL])
  ultimately show ?thesis
    using clicked_eq [OF assms, of b] len by simp
qed

theorem click_overwrites_display_witness:
  "length (afns_result_buffer
      \<lparr>afns_result_buffer = replicate 1024 (CHR ''x''), text_buffer = ''old text''\<rparr>) = 1024
   \<and> map_option text_buffer
       (clicked dialog_btn
          \<lparr>afns_result_buffer = replicate 1024 (CHR ''x''), text_buffer = ''old text''\<rparr>)
       = Some afns_show_dialog_text
   \<and> map_option (\<lambda>st'. c_string (afns_result_buffer st'))
       (clicked dialog_btn
          \<lparr>afns_result_buffer = replicate 1024 (CHR ''x''), text_buffer = ''old text''\<rparr>)
       = Some (Some afns_show_dialog_text)"
  using click_overwrites_display
    [of "\<lparr>afns_result_buffer = replicate 1024 (CHR ''x''), text_buffer = ''old text''\<rparr>"
      dialog_btn]
  by auto

text \<open>
  C10. The seven literals copied into \<open>afns_result_buffer\<close> are 101, 129, 95, 127, 114,
  244 and 252 bytes long. Each of them with its terminating NUL is at most 1024 bytes,
  so \<open>strcpy\<close> of any of them into the 1024-byte array is defined and writes inside it.
\<close>

theorem strcpy_literals_fit_buffer:
  "map length strcpy_literals = [101, 129, 95, 127, 114, 244, 252]
   \<and> (lit \<in> set strcpy_literals \<longrightarrow> length dest = 1024 \<longrightarrow>
        length lit + 1 \<le> 1024
        \<and> strcpy dest lit = Some (lit @ [CHR 0x00] @ drop (length lit + 1) dest)
        \<and> length (lit @ [CHR 0x00] @ drop (length lit + 1) dest) = 1024)"
proof -
  have lens: "map length strcpy_literals = [101, 129, 95, 127, 114, 244, 252]"
    by (simp add: strcpy_literals_def literal_lengths)
  have "length lit + 1 \<le> 1024" if "lit \<in> set strcpy_literals"
    using that by (auto simp: strcpy_literals_def literal_lengths)
  then show ?thesis
    using lens by (simp add: strcpy_fits)
qed

theorem strcpy_literals_fit_buffer_witness:
  "initial_text \<in> set strcpy_literals
   \<and> length (replicate 1024 (CHR 0x00)) = 1024
   \<and> length initial_text + 1 = 253
   \<and> strcpy (replicate 1024 (CHR 0x00)) initial_text
       = Some (initial_text @ replicate 772 (CHR 0x00))
   \<and> main_initial_text
       = Some \<lparr>afns_result_buffer = initial_text @ replicate 772 (CHR 0x00),
               text_buffer = initial_text\<rparr>"
proof -
  have mem: "initial_text \<in> set strcpy_literals"
    by (simp add: strcpy_literals_def)
  have len: "length (replicate 1024 (CHR 0x00)) = 1024"
    by simp
  have tail: "[CHR 0x00] @ drop (length initial_text + 1) (replicate 1024 (CHR 0x00))
      = replicate 772 (CHR 0x00)"
    by (simp add: literal_lengths flip: replicate_Suc)
  from strcpy_literals_fit_buffer [of initial_text "replicate 1024 (CHR 0x00)"] mem len
  have cp: "strcpy (replicate 1024 (CHR 0x00)) initial_text
      = Some (initial_text @ replicate 772 (CHR 0x00))"
    by (simp only: tail)
  have "c_string (initial_text @ replicate 772 (CHR 0x00)) = Some initial_text"
    using c_string_terminated [OF literal_no_NUL(7), of "replicate 771 (CHR 0x00)"]
    by (simp flip: replicate_Suc)
  with cp mem show ?thesis
    by (simp add: main_initial_text_def gtk_text_buffer_set_text_def literal_lengths)
qed

end
